theory Spec2Isabelle
  imports
    Main
    "HOL-Library.FSet"
    "HOL-Library.AList"
    "HOL-Library.Char_ord"
    "HOL-Library.List_Lexorder"
begin

section \<open>The gap-report generator: data model\<close>

text \<open>
  The development embeds \<^verbatim>\<open>scripts/fortran/generate-gap-report.py\<close>.
  Python sets are finite sets (\<open>'a fset\<close>), \<open>sorted(s)\<close> of a set of strings is
  \<open>sorted_list_of_fset\<close> under the lexicographic order on character codes, a
  \<open>dict\<close> whose iteration order is used is an association list (\<open>AList.update\<close>
  overwrites in place and appends a new key at the end, as a Python dict does), and a
  \<open>defaultdict(set)\<close> is a map to finite sets which is read with \<open>.get(k, set())\<close>.
\<close>

record FileData =
  rel_path :: string
  fortran_dir :: string
  defined_modules :: "string fset"
  defined_routines :: "string fset"
  uses :: "string fset"
  calls :: "string fset"
  unresolved_targets :: "string fset"
  resolved_deps :: "string fset"
  origin_modules :: "string fset"
  classification :: string

text \<open>\<open>FileData.__init__\<close>: every set empty, classification \<open>out_of_scope\<close>.\<close>

definition new_FileData :: "string \<Rightarrow> string \<Rightarrow> FileData" where
  "new_FileData rel dir =
     \<lparr> rel_path = rel, fortran_dir = dir,
       defined_modules = {||}, defined_routines = {||},
       uses = {||}, calls = {||},
       unresolved_targets = {||}, resolved_deps = {||},
       origin_modules = {||}, classification = ''out_of_scope'' \<rparr>"

type_synonym file_table = "(string \<times> FileData) list"

text \<open>A \<open>defaultdict(set)\<close>: \<open>d.get(k, set())\<close>, \<open>d[k].add(v)\<close> and \<open>d[k].update(vs)\<close>.\<close>

type_synonym index = "string \<rightharpoonup> string fset"

definition get_default :: "index \<Rightarrow> string \<Rightarrow> string fset" where
  "get_default d k = (case d k of None \<Rightarrow> {||} | Some s \<Rightarrow> s)"

definition index_add :: "index \<Rightarrow> string \<Rightarrow> string \<Rightarrow> index" where
  "index_add d k v = d(k \<mapsto> finsert v (get_default d k))"

definition index_update :: "index \<Rightarrow> string \<Rightarrow> string fset \<Rightarrow> index" where
  "index_update d k vs = d(k \<mapsto> get_default d k |\<union>| vs)"

datatype error =
    KeyError string
  | ValueError string
  | AttributeError
  | JSONDecodeError

section \<open>Configuration tables and string helpers\<close>

definition MODULE_TO_DIRS :: "(string \<times> string list) list" where
  "MODULE_TO_DIRS =
     [(''RDINP'', [''RDINP'']), (''POT'', [''POT'']), (''PATH'', [''PATH'']),
      (''FMS'', [''FMS'']), (''XSPH'', [''XSPH'']), (''BAND'', [''BAND'']),
      (''LDOS'', [''LDOS'']), (''RIXS'', [''RIXS'']), (''CRPA'', [''CRPA'']),
      (''COMPTON'', [''COMPTON'']), (''DEBYE'', [''DEBYE'', ''FF2X'']),
      (''DMDW'', [''DMDW'']), (''SCREEN'', [''SCREEN'']),
      (''SELF'', [''SELF'', ''SFCONV'']), (''EELS'', [''EELS'']),
      (''FULLSPECTRUM'', [''FULLSPECTRUM''])]"

definition MODULE_TO_OUTPUT_NAME :: "(string \<times> string) list" where
  "MODULE_TO_OUTPUT_NAME =
     [(''RDINP'', ''rdinp''), (''POT'', ''pot''), (''PATH'', ''path''),
      (''FMS'', ''fms''), (''XSPH'', ''xsph''), (''BAND'', ''band''),
      (''LDOS'', ''ldos''), (''RIXS'', ''rixs''), (''CRPA'', ''crpa''),
      (''COMPTON'', ''compton''), (''DEBYE'', ''debye''), (''DMDW'', ''dmdw''),
      (''SCREEN'', ''screen''), (''SELF'', ''self''), (''EELS'', ''eels''),
      (''FULLSPECTRUM'', ''fullspectrum'')]"

text \<open>
  \<open>str.upper()\<close> and \<open>str.lower()\<close> on ASCII text: the letters are mapped, every
  other character is kept. (Python also maps letters outside ASCII; module and
  directory names of the scanned tree are ASCII.)
\<close>

definition str_upper :: "string \<Rightarrow> string" where
  "str_upper s =
     map (\<lambda>c. case map_of (zip ''abcdefghijklmnopqrstuvwxyz'' ''ABCDEFGHIJKLMNOPQRSTUVWXYZ'') c of
                 None \<Rightarrow> c | Some u \<Rightarrow> u) s"

definition str_lower :: "string \<Rightarrow> string" where
  "str_lower s =
     map (\<lambda>c. case map_of (zip ''ABCDEFGHIJKLMNOPQRSTUVWXYZ'' ''abcdefghijklmnopqrstuvwxyz'') c of
                 None \<Rightarrow> c | Some l \<Rightarrow> l) s"

text \<open>
  \<open>build_dir_to_modules\<close>: for every runtime module, each of its directories
  (\<open>MODULE_TO_DIRS.get(module, (module,))\<close>) is mapped, upper-cased, to the module.
\<close>

definition module_dirs :: "string \<Rightarrow> string list" where
  "module_dirs module = (case map_of MODULE_TO_DIRS module of None \<Rightarrow> [module] | Some dirs \<Rightarrow> dirs)"

definition build_dir_to_modules :: "string list \<Rightarrow> index" where
  "build_dir_to_modules runtime_modules =
     fold (\<lambda>module mapping.
             fold (\<lambda>directory m. index_add m (str_upper directory) module)
                  (module_dirs module) mapping)
          runtime_modules Map.empty"

text \<open>
  \<open>primary_runtime_module_name\<close>. The sorted list of the set is empty exactly when
  \<open>not modules\<close>, has two or more entries exactly when \<open>len(modules) > 1\<close>, and is
  \<open>[only]\<close> otherwise, \<open>only\<close> being \<open>next(iter(modules))\<close>.
\<close>

definition primary_runtime_module_name :: "string fset \<Rightarrow> string" where
  "primary_runtime_module_name modules =
     (case sorted_list_of_fset modules of
        [] \<Rightarrow> ''none''
      | [only] \<Rightarrow> (case map_of MODULE_TO_OUTPUT_NAME only of
                     None \<Rightarrow> str_lower only | Some name \<Rightarrow> name)
      | _ \<Rightarrow> ''multiple'')"

section \<open>Scanning: the file table and the two symbol indexes\<close>

text \<open>
  One scanned file, as the loop over \<open>files\<close> sees it: the path relative to the
  repository root, the name of the parent directory, and the four sets returned by
  \<open>parse_fortran_file\<close> (defined modules, defined routines, uses, calls).
\<close>

record scanned =
  s_rel :: string
  s_parent_name :: string
  s_defined_modules :: "string fset"
  s_defined_routines :: "string fset"
  s_uses :: "string fset"
  s_calls :: "string fset"

definition scan_record :: "scanned \<Rightarrow> FileData" where
  "scan_record f =
     (new_FileData (s_rel f) (str_upper (s_parent_name f)))
       \<lparr> defined_modules := s_defined_modules f,
         defined_routines := s_defined_routines f,
         uses := s_uses f,
         calls := s_calls f \<rparr>"

text \<open>
  \<open>for symbol in record.defined_modules: module_defs[symbol].add(rel)\<close>. The set is
  walked in sorted order here; the additions go to different keys and commute.
\<close>

definition add_definitions :: "string fset \<Rightarrow> string \<Rightarrow> index \<Rightarrow> index" where
  "add_definitions symbols rel d =
     fold (\<lambda>symbol d'. index_add d' symbol rel) (sorted_list_of_fset symbols) d"

fun scan_files :: "scanned list \<Rightarrow> file_table \<times> index \<times> index \<Rightarrow> file_table \<times> index \<times> index" where
  "scan_files [] st = st"
| "scan_files (f # files) (file_data, module_defs, routine_defs) =
     scan_files files
       (AList.update (s_rel f) (scan_record f) file_data,
        add_definitions (s_defined_modules f) (s_rel f) module_defs,
        add_definitions (s_defined_routines f) (s_rel f) routine_defs)"

section \<open>Resolution: edges and unresolved targets\<close>

text \<open>
  The two inner loops of the resolver have the same body; \<open>kind\<close> is \<open>use\<close> with
  \<open>module_defs\<close> and \<open>call\<close> with \<open>routine_defs\<close>. Candidates are the definers of
  the name other than the referencing file; with none left the tag
  \<open>kind::name\<close> is recorded and no edge is added.
\<close>

fun resolve_names ::
  "string \<Rightarrow> index \<Rightarrow> string \<Rightarrow> string list \<Rightarrow> index \<times> string fset \<Rightarrow> index \<times> string fset" where
  "resolve_names kind defs rel [] st = st"
| "resolve_names kind defs rel (name # names) (adjacency, unresolved) =
     (let targets = ffilter (\<lambda>target. target \<noteq> rel) (get_default defs name)
      in if targets \<noteq> {||}
         then resolve_names kind defs rel names (index_update adjacency rel targets, unresolved)
         else resolve_names kind defs rel names
                (adjacency, finsert (kind @ ''::'' @ name) unresolved))"

definition resolve_file :: "index \<Rightarrow> index \<Rightarrow> string \<Rightarrow> FileData \<Rightarrow> index \<Rightarrow> FileData \<times> index" where
  "resolve_file module_defs routine_defs rel record adjacency =
     (case resolve_names ''use'' module_defs rel (sorted_list_of_fset (uses record))
             (adjacency, unresolved_targets record) of
        (adjacency1, unresolved1) \<Rightarrow>
     (case resolve_names ''call'' routine_defs rel (sorted_list_of_fset (calls record))
             (adjacency1, unresolved1) of
        (adjacency2, unresolved2) \<Rightarrow>
          (record \<lparr> unresolved_targets := unresolved2,
                    resolved_deps := get_default adjacency2 rel \<rparr>,
           adjacency2)))"

fun resolve_all :: "index \<Rightarrow> index \<Rightarrow> file_table \<Rightarrow> index \<Rightarrow> file_table \<times> index" where
  "resolve_all module_defs routine_defs [] adjacency = ([], adjacency)"
| "resolve_all module_defs routine_defs ((rel, record) # items) adjacency =
     (case resolve_file module_defs routine_defs rel record adjacency of
        (record', adjacency') \<Rightarrow>
     (case resolve_all module_defs routine_defs items adjacency' of
        (items', adjacency'') \<Rightarrow> ((rel, record') # items', adjacency'')))"

section \<open>Seeding and propagation\<close>

fun seed_files :: "index \<Rightarrow> file_table \<Rightarrow> string fset \<Rightarrow> file_table \<times> string fset" where
  "seed_files dir_to_modules [] runtime_owned = ([], runtime_owned)"
| "seed_files dir_to_modules ((rel, record) # items) runtime_owned =
     (let modules = get_default dir_to_modules (fortran_dir record)
      in if modules \<noteq> {||}
         then (case seed_files dir_to_modules items (finsert rel runtime_owned) of
                 (items', owned') \<Rightarrow>
                   ((rel, record \<lparr> origin_modules := origin_modules record |\<union>| modules \<rparr>) # items',
                    owned'))
         else (case seed_files dir_to_modules items runtime_owned of
                 (items', owned') \<Rightarrow> ((rel, record) # items', owned')))"

text \<open>
  The state of the propagation loop. The adjacency is part of it although the loop
  only reads it (\<open>adjacency.get\<close> adds no key), so that what the loop leaves
  unchanged can be stated.
\<close>

record pstate =
  queue :: "string list"
  queued :: "string fset"
  file_data :: file_table
  adjacency :: index

text \<open>
  The body of the \<open>for dep in sorted(...)\<close> loop. \<open>current_origins\<close> is the
  label set of the popped file; in Python it is a reference to that file's set, which
  this loop changes only when \<open>dep\<close> is the popped file itself, and then by a union
  with itself. \<open>file_data[dep]\<close> raises \<open>KeyError\<close> for a path that was not scanned.
\<close>

definition visit_dep :: "string fset \<Rightarrow> string \<Rightarrow> pstate \<Rightarrow> error + pstate" where
  "visit_dep current_origins dep st =
     (case map_of (file_data st) dep of
        None \<Rightarrow> Inl (KeyError dep)
      | Some target \<Rightarrow>
          (let before = fcard (origin_modules target);
               target_origins = origin_modules target |\<union>| current_origins;
               file_data' = AList.update dep (target \<lparr> origin_modules := target_origins \<rparr>)
                              (file_data st)
           in if fcard target_origins > before \<and> dep |\<notin>| queued st
              then Inr (st \<lparr> queue := queue st @ [dep],
                            queued := finsert dep (queued st),
                            file_data := file_data' \<rparr>)
              else Inr (st \<lparr> file_data := file_data' \<rparr>)))"

fun propagate_deps :: "string fset \<Rightarrow> string list \<Rightarrow> pstate \<Rightarrow> error + pstate" where
  "propagate_deps current_origins [] st = Inr st"
| "propagate_deps current_origins (dep # deps) st =
     (case visit_dep current_origins dep st of
        Inl e \<Rightarrow> Inl e
      | Inr st' \<Rightarrow> propagate_deps current_origins deps st')"

text \<open>One iteration of the \<open>while queue\<close> loop, entered with a non-empty queue.\<close>

definition while_body :: "pstate \<Rightarrow> error + pstate" where
  "while_body st =
     (case queue st of
        [] \<Rightarrow> Inr st
      | current # rest \<Rightarrow>
          (let st1 = st \<lparr> queue := rest, queued := queued st |-| {|current|} \<rparr>
           in case map_of (file_data st1) current of
                None \<Rightarrow> Inl (KeyError current)
              | Some record \<Rightarrow>
                  if origin_modules record = {||} then Inr st1
                  else propagate_deps (origin_modules record)
                         (sorted_list_of_fset (get_default (adjacency st1) current)) st1))"

text \<open>
  The loop itself. It may in principle run forever, so the result is an option:
  \<open>None\<close> stands for a loop that never leaves.
\<close>

partial_function (option) propagate :: "pstate \<Rightarrow> (error + pstate) option" where
  "propagate st =
     (if queue st = [] then Some (Inr st)
      else case while_body st of
             Inl e \<Rightarrow> Some (Inl e)
           | Inr st' \<Rightarrow> propagate st')"

declare propagate.simps [code]

section \<open>Classification and the analysis as a whole\<close>

definition build_graph :: "scanned list \<Rightarrow> file_table \<times> index" where
  "build_graph files =
     (case scan_files files ([], Map.empty, Map.empty) of
        (table, module_defs, routine_defs) \<Rightarrow>
          resolve_all module_defs routine_defs table Map.empty)"

text \<open>The state in which the \<open>while\<close> loop is entered, and the set \<open>runtime_owned\<close>.\<close>

definition initial_pstate :: "index \<Rightarrow> scanned list \<Rightarrow> pstate \<times> string fset" where
  "initial_pstate dir_to_modules files =
     (case build_graph files of
        (file_data1, adjacency1) \<Rightarrow>
     (case seed_files dir_to_modules file_data1 {||} of
        (file_data2, runtime_owned) \<Rightarrow>
          (\<lparr> queue = sorted_list_of_fset runtime_owned,
             queued = fset_of_list (sorted_list_of_fset runtime_owned),
             file_data = file_data2,
             adjacency = adjacency1 \<rparr>,
           runtime_owned)))"

definition classify :: "string fset \<Rightarrow> FileData \<Rightarrow> FileData" where
  "classify runtime_owned record =
     (if rel_path record |\<in>| runtime_owned
      then record \<lparr> classification := ''runtime_owned'' \<rparr>
      else if origin_modules record \<noteq> {||}
      then record \<lparr> classification := ''runtime_support_dependency'' \<rparr>
      else record \<lparr> classification := ''out_of_scope'' \<rparr>)"

text \<open>
  \<open>[file_data[path] for path in sorted(file_data)]\<close>. Every path comes from the
  table itself, so no lookup fails.
\<close>

definition sorted_records :: "file_table \<Rightarrow> FileData list" where
  "sorted_records table = List.map_filter (map_of table) (sort (map fst table))"

definition analyse :: "index \<Rightarrow> scanned list \<Rightarrow> (error + FileData list) option" where
  "analyse dir_to_modules files =
     (case initial_pstate dir_to_modules files of
        (st0, runtime_owned) \<Rightarrow>
          (case propagate st0 of
             None \<Rightarrow> None
           | Some (Inl e) \<Rightarrow> Some (Inl e)
           | Some (Inr st) \<Rightarrow>
               Some (Inr (map (classify runtime_owned) (sorted_records (file_data st))))))"

section \<open>Auxiliary notions for the statements\<close>

text \<open>The origin-label set of a path: empty for a path that is not in the table.\<close>

definition origins_of :: "file_table \<Rightarrow> string \<Rightarrow> string fset" where
  "origins_of table k = (case map_of table k of None \<Rightarrow> {||} | Some r \<Rightarrow> origin_modules r)"

text \<open>A graph over the scanned files: the queue and every edge stay inside the table.\<close>

definition graph_over_files :: "pstate \<Rightarrow> bool" where
  "graph_over_files st \<longleftrightarrow>
     set (queue st) \<subseteq> fst ` set (file_data st) \<and>
     (\<forall>k. fset (get_default (adjacency st) k) \<subseteq> fst ` set (file_data st))"

text \<open>The table with every origin-label set blanked: what propagation must not touch.\<close>

definition without_origins :: "file_table \<Rightarrow> file_table" where
  "without_origins table = map (\<lambda>(k, r). (k, r \<lparr> origin_modules := {||} \<rparr>)) table"

text \<open>The definers of a name other than the referencing file.\<close>

definition other_definers :: "index \<Rightarrow> string \<Rightarrow> string \<Rightarrow> string fset" where
  "other_definers defs rel name = ffilter (\<lambda>target. target \<noteq> rel) (get_default defs name)"

text \<open>
  The measure of the propagation loop: with every label set inside \<open>L\<close>, the number
  of labels of \<open>L\<close> the files still lack, summed over the table.
\<close>

definition labels_within :: "string fset \<Rightarrow> file_table \<Rightarrow> bool" where
  "labels_within L table \<longleftrightarrow> (\<forall>(k, r) \<in> set table. origin_modules r |\<subseteq>| L)"

definition potential :: "string fset \<Rightarrow> file_table \<Rightarrow> nat" where
  "potential L table = sum_list (map (\<lambda>(k, r). fcard (L |-| origin_modules r)) table)"

definition all_labels :: "file_table \<Rightarrow> string fset" where
  "all_labels table = ffUnion (fset_of_list (map (\<lambda>(k, r). origin_modules r) table))"

text \<open>
  The invariants of the loop behind closure: the queue has no duplicates and \<open>queued\<close>
  is its set of entries; a file that is not waiting in the queue has passed its labels
  on to every target of its edges.
\<close>

definition queue_ok :: "pstate \<Rightarrow> bool" where
  "queue_ok st \<longleftrightarrow> distinct (queue st) \<and> queued st = fset_of_list (queue st)"

definition closed_at :: "pstate \<Rightarrow> string \<Rightarrow> bool" where
  "closed_at st k \<longleftrightarrow>
     (\<forall>d. d |\<in>| get_default (adjacency st) k \<longrightarrow>
          origins_of (file_data st) k |\<subseteq>| origins_of (file_data st) d)"

definition closed_off_queue :: "pstate \<Rightarrow> bool" where
  "closed_off_queue st \<longleftrightarrow> (\<forall>k. k \<notin> set (queue st) \<longrightarrow> closed_at st k)"

section \<open>A small instance\<close>

text \<open>Two files on a cycle, the first one seeded with one label.\<close>

definition example_table :: file_table where
  "example_table =
     [(''a.f'', (new_FileData ''a.f'' ''D'') \<lparr> origin_modules := {|''ALPHA''|} \<rparr>),
      (''b.f'', new_FileData ''b.f'' ''E'')]"

definition example_state :: pstate where
  "example_state =
     \<lparr> queue = [''a.f''], queued = {|''a.f''|}, file_data = example_table,
       adjacency = [''a.f'' \<mapsto> {|''b.f''|}, ''b.f'' \<mapsto> {|''a.f''|}] \<rparr>"

definition example_step :: pstate where
  "example_step =
     \<lparr> queue = [''b.f''], queued = {|''b.f''|},
       file_data =
         [(''a.f'', (new_FileData ''a.f'' ''D'') \<lparr> origin_modules := {|''ALPHA''|} \<rparr>),
          (''b.f'', (new_FileData ''b.f'' ''E'') \<lparr> origin_modules := {|''ALPHA''|} \<rparr>)],
       adjacency = [''a.f'' \<mapsto> {|''b.f''|}, ''b.f'' \<mapsto> {|''a.f''|}] \<rparr>"

definition example_final :: pstate where
  "example_final = example_step \<lparr> queue := [], queued := {||} \<rparr>"

section \<open>Basic facts\<close>

lemma fcard_grows_iff: "fcard A < fcard (A |\<union>| B) \<longleftrightarrow> \<not> B |\<subseteq>| A"
proof
  assume "fcard A < fcard (A |\<union>| B)"
  then have "A |\<union>| B \<noteq> A" by auto
  then show "\<not> B |\<subseteq>| A" by auto
next
  assume "\<not> B |\<subseteq>| A"
  then have "A |\<subset>| A |\<union>| B" by auto
  then show "fcard A < fcard (A |\<union>| B)" by (rule pfsubset_fcard_mono)
qed

lemma map_of_Some_key: "map_of al k = Some v \<Longrightarrow> k \<in> fst ` set al"
  by (metis map_of_eq_None_iff option.distinct(1))

lemma update_existing_keys: "map_of al k = Some v \<Longrightarrow> map fst (AList.update k v' al) = map fst al"
  by (simp add: update_keys map_of_Some_key)

lemma origins_of_update:
  "origins_of (AList.update k r al) k' = (if k' = k then origin_modules r else origins_of al k')"
  by (simp add: origins_of_def update_conv')

lemma visit_dep_Inr:
  assumes "visit_dep co dep st = Inr st'"
  obtains target where
    "map_of (file_data st) dep = Some target"
    "file_data st' =
       AList.update dep (target \<lparr> origin_modules := origin_modules target |\<union>| co \<rparr>) (file_data st)"
    "adjacency st' = adjacency st"
    "(\<not> co |\<subseteq>| origin_modules target \<and> dep |\<notin>| queued st \<and>
        queue st' = queue st @ [dep] \<and> queued st' = finsert dep (queued st)) \<or>
     ((co |\<subseteq>| origin_modules target \<or> dep |\<in>| queued st) \<and>
        queue st' = queue st \<and> queued st' = queued st)"
  using assms
  by (auto simp: visit_dep_def Let_def fcard_grows_iff split: option.splits if_splits)

lemma visit_dep_defined:
  "dep \<in> fst ` set (file_data st) \<Longrightarrow> \<exists>st'. visit_dep co dep st = Inr st'"
  by (cases "map_of (file_data st) dep")
     (auto simp: visit_dep_def Let_def map_of_eq_None_iff)

lemma without_origins_update:
  "map_of al k = Some r \<Longrightarrow>
   without_origins (AList.update k (r \<lparr> origin_modules := X \<rparr>) al) = without_origins al"
  by (induction al) (auto simp: without_origins_def)

lemma potential_update:
  "map_of al k = Some r \<Longrightarrow>
   potential L (AList.update k r' al) + fcard (L |-| origin_modules r) =
   potential L al + fcard (L |-| origin_modules r')"
  by (induction al) (auto simp: potential_def)

lemma labels_within_update:
  "labels_within L al \<Longrightarrow> origin_modules r |\<subseteq>| L \<Longrightarrow> labels_within L (AList.update k r al)"
  by (induction al) (auto simp: labels_within_def)

lemma labels_within_lookup:
  "labels_within L al \<Longrightarrow> map_of al k = Some r \<Longrightarrow> origin_modules r |\<subseteq>| L"
  by (auto simp: labels_within_def dest!: map_of_SomeD)

lemma weight_le: "fcard (L |-| (A |\<union>| B)) \<le> fcard (L |-| A)"
  by (rule fcard_mono) auto

lemma weight_less: "B |\<subseteq>| L \<Longrightarrow> \<not> B |\<subseteq>| A \<Longrightarrow> fcard (L |-| (A |\<union>| B)) < fcard (L |-| A)"
  by (rule pfsubset_fcard_mono) auto

subsection \<open>One visit\<close>

lemma visit_dep_adjacency: "visit_dep co dep st = Inr st' \<Longrightarrow> adjacency st' = adjacency st"
  by (erule visit_dep_Inr)

lemma visit_dep_keys:
  "visit_dep co dep st = Inr st' \<Longrightarrow> map fst (file_data st') = map fst (file_data st)"
  by (erule visit_dep_Inr) (simp add: update_existing_keys)

lemma visit_dep_frame:
  "visit_dep co dep st = Inr st' \<Longrightarrow> without_origins (file_data st') = without_origins (file_data st)"
  by (erule visit_dep_Inr) (simp add: without_origins_update)

lemma visit_dep_origins:
  assumes "visit_dep co dep st = Inr st'"
  shows "origins_of (file_data st') k =
           (if k = dep then origins_of (file_data st) dep |\<union>| co else origins_of (file_data st) k)"
  using assms by (elim visit_dep_Inr) (simp add: origins_of_update, simp add: origins_of_def)

lemma visit_dep_queue:
  assumes "visit_dep co dep st = Inr st'"
  shows "(\<not> co |\<subseteq>| origins_of (file_data st) dep \<and> dep |\<notin>| queued st \<and>
            queue st' = queue st @ [dep] \<and> queued st' = finsert dep (queued st)) \<or>
         ((co |\<subseteq>| origins_of (file_data st) dep \<or> dep |\<in>| queued st) \<and>
            queue st' = queue st \<and> queued st' = queued st)"
  using assms by (elim visit_dep_Inr) (simp add: origins_of_def)

lemma visit_dep_potential:
  assumes "visit_dep co dep st = Inr st'"
  shows "potential L (file_data st') \<le> potential L (file_data st)"
    and "co |\<subseteq>| L \<Longrightarrow> queue st' \<noteq> queue st \<Longrightarrow>
         potential L (file_data st') < potential L (file_data st)"
proof -
  from assms obtain target where t: "map_of (file_data st) dep = Some target"
    and fd: "file_data st' =
       AList.update dep (target \<lparr> origin_modules := origin_modules target |\<union>| co \<rparr>) (file_data st)"
    and q: "(\<not> co |\<subseteq>| origin_modules target \<and> dep |\<notin>| queued st \<and>
        queue st' = queue st @ [dep] \<and> queued st' = finsert dep (queued st)) \<or>
     ((co |\<subseteq>| origin_modules target \<or> dep |\<in>| queued st) \<and>
        queue st' = queue st \<and> queued st' = queued st)"
    by (rule visit_dep_Inr)
  have eq: "potential L (file_data st') + fcard (L |-| origin_modules target) =
            potential L (file_data st) + fcard (L |-| (origin_modules target |\<union>| co))"
    using potential_update [OF t, of L] fd by simp
  show "potential L (file_data st') \<le> potential L (file_data st)"
    using eq weight_le [of L "origin_modules target" co] by linarith
  show "potential L (file_data st') < potential L (file_data st)"
    if "co |\<subseteq>| L" "queue st' \<noteq> queue st"
  proof -
    from q that(2) have "\<not> co |\<subseteq>| origin_modules target" by auto
    then show ?thesis
      using eq weight_less [OF that(1), of "origin_modules target"] by linarith
  qed
qed

lemma visit_dep_labels_within:
  assumes "visit_dep co dep st = Inr st'" "labels_within L (file_data st)" "co |\<subseteq>| L"
  shows "labels_within L (file_data st')"
proof -
  from assms(1) obtain target where t: "map_of (file_data st) dep = Some target"
    and fd: "file_data st' =
       AList.update dep (target \<lparr> origin_modules := origin_modules target |\<union>| co \<rparr>) (file_data st)"
    by (rule visit_dep_Inr)
  have "origin_modules target |\<subseteq>| L" using labels_within_lookup [OF assms(2) t] .
  with assms(3) have "origin_modules (target \<lparr> origin_modules := origin_modules target |\<union>| co \<rparr>) |\<subseteq>| L"
    by simp
  from labels_within_update [OF assms(2) this] fd show ?thesis by simp
qed

lemma keys_of_map_fst: "map fst a = map fst b \<Longrightarrow> fst ` set a = fst ` set b"
  by (metis set_map)

lemma propagate_deps_rule:
  assumes "propagate_deps co deps st = Inr st'"
    and "I st"
    and "\<And>d s s'. d \<in> set deps \<Longrightarrow> I s \<Longrightarrow> visit_dep co d s = Inr s' \<Longrightarrow> I s'"
  shows "I st'"
  using assms
proof (induction deps arbitrary: st)
  case Nil
  then show ?case by simp
next
  case (Cons d deps)
  from Cons.prems(1) obtain s1 where v: "visit_dep co d st = Inr s1"
    and r: "propagate_deps co deps s1 = Inr st'"
    by (auto split: sum.splits)
  have "I s1" using Cons.prems(3) [OF _ Cons.prems(2) v] by simp
  with r show ?case using Cons.IH Cons.prems(3) by (metis list.set_intros(2))
qed

lemma propagate_deps_defined:
  "set deps \<subseteq> fst ` set (file_data st) \<Longrightarrow> \<exists>st'. propagate_deps co deps st = Inr st'"
proof (induction deps arbitrary: st)
  case Nil
  then show ?case by simp
next
  case (Cons d deps)
  then obtain s1 where v: "visit_dep co d st = Inr s1"
    using visit_dep_defined [of d st co] by auto
  have "fst ` set (file_data s1) = fst ` set (file_data st)"
    using visit_dep_keys [OF v] by (rule keys_of_map_fst)
  with Cons.prems have "set deps \<subseteq> fst ` set (file_data s1)" by simp
  from Cons.IH [OF this] v show ?case by simp
qed

lemma propagate_deps_adjacency:
  "propagate_deps co deps st = Inr st' \<Longrightarrow> adjacency st' = adjacency st"
  by (erule propagate_deps_rule [where I = "\<lambda>s. adjacency s = adjacency st"])
     (simp_all add: visit_dep_adjacency)

lemma propagate_deps_frame:
  "propagate_deps co deps st = Inr st' \<Longrightarrow>
   without_origins (file_data st') = without_origins (file_data st)"
  by (erule propagate_deps_rule
        [where I = "\<lambda>s. without_origins (file_data s) = without_origins (file_data st)"])
     (simp_all add: visit_dep_frame)

lemma propagate_deps_keys:
  "propagate_deps co deps st = Inr st' \<Longrightarrow> map fst (file_data st') = map fst (file_data st)"
  by (erule propagate_deps_rule [where I = "\<lambda>s. map fst (file_data s) = map fst (file_data st)"])
     (simp_all add: visit_dep_keys)

lemma propagate_deps_mono:
  "propagate_deps co deps st = Inr st' \<Longrightarrow>
   origins_of (file_data st) k |\<subseteq>| origins_of (file_data st') k"
  by (erule propagate_deps_rule
        [where I = "\<lambda>s. origins_of (file_data st) k |\<subseteq>| origins_of (file_data s) k"])
     (auto simp: visit_dep_origins)

lemma propagate_deps_measure:
  assumes "propagate_deps co deps st = Inr st'"
    and "labels_within L (file_data st)" and "co |\<subseteq>| L"
  shows "labels_within L (file_data st') \<and>
         potential L (file_data st') \<le> potential L (file_data st) \<and>
         (queue st' = queue st \<or> potential L (file_data st') < potential L (file_data st)) \<and>
         set (queue st') \<subseteq> set (queue st) \<union> set deps"
proof (rule propagate_deps_rule [OF assms(1)])
  show "labels_within L (file_data st) \<and>
         potential L (file_data st) \<le> potential L (file_data st) \<and>
         (queue st = queue st \<or> potential L (file_data st) < potential L (file_data st)) \<and>
         set (queue st) \<subseteq> set (queue st) \<union> set deps"
    using assms(2) by simp
next
  fix d s s'
  assume d: "d \<in> set deps"
    and I: "labels_within L (file_data s) \<and>
         potential L (file_data s) \<le> potential L (file_data st) \<and>
         (queue s = queue st \<or> potential L (file_data s) < potential L (file_data st)) \<and>
         set (queue s) \<subseteq> set (queue st) \<union> set deps"
    and v: "visit_dep co d s = Inr s'"
  have 1: "labels_within L (file_data s')"
    using visit_dep_labels_within [OF v _ assms(3)] I by simp
  have 2: "potential L (file_data s') \<le> potential L (file_data s)"
    using visit_dep_potential(1) [OF v] .
  have 3: "queue s' \<noteq> queue s \<Longrightarrow> potential L (file_data s') < potential L (file_data s)"
    using visit_dep_potential(2) [OF v assms(3)] .
  have 4: "set (queue s') \<subseteq> set (queue s) \<union> {d}"
    using visit_dep_queue [OF v] by auto
  show "labels_within L (file_data s') \<and>
         potential L (file_data s') \<le> potential L (file_data st) \<and>
         (queue s' = queue st \<or> potential L (file_data s') < potential L (file_data st)) \<and>
         set (queue s') \<subseteq> set (queue st) \<union> set deps"
  proof (intro conjI)
    show "labels_within L (file_data s')" by (rule 1)
    show "potential L (file_data s') \<le> potential L (file_data st)" using 2 I by linarith
    show "queue s' = queue st \<or> potential L (file_data s') < potential L (file_data st)"
    proof (cases "queue s' = queue s")
      case True
      with I 2 show ?thesis by auto
    next
      case False
      from 3 [OF this] I show ?thesis by linarith
    qed
    show "set (queue s') \<subseteq> set (queue st) \<union> set deps" using 4 I d by auto
  qed
qed

subsection \<open>One iteration of the while loop\<close>

lemma while_body_Inr:
  assumes "while_body st = Inr st'" and "queue st = current # rest"
  obtains r0 where "map_of (file_data st) current = Some r0"
    and "(origin_modules r0 = {||} \<and>
            st' = st \<lparr> queue := rest, queued := queued st |-| {|current|} \<rparr>) \<or>
         (origin_modules r0 \<noteq> {||} \<and>
            propagate_deps (origin_modules r0)
              (sorted_list_of_fset (get_default (adjacency st) current))
              (st \<lparr> queue := rest, queued := queued st |-| {|current|} \<rparr>) = Inr st')"
  using assms
  by (auto simp: while_body_def Let_def split: option.splits if_splits)

lemma while_body_adjacency:
  "while_body st = Inr st' \<Longrightarrow> adjacency st' = adjacency st"
proof (cases "queue st")
  case Nil
  assume "while_body st = Inr st'"
  with Nil show ?thesis by (simp add: while_body_def)
next
  case (Cons current rest)
  assume "while_body st = Inr st'"
  then show ?thesis
    by (rule while_body_Inr [OF _ Cons]) (auto dest: propagate_deps_adjacency)
qed

lemma while_body_frame:
  "while_body st = Inr st' \<Longrightarrow> without_origins (file_data st') = without_origins (file_data st)"
proof (cases "queue st")
  case Nil
  assume "while_body st = Inr st'"
  with Nil show ?thesis by (simp add: while_body_def)
next
  case (Cons current rest)
  assume "while_body st = Inr st'"
  then show ?thesis
    by (rule while_body_Inr [OF _ Cons]) (auto dest: propagate_deps_frame)
qed

lemma while_body_mono:
  "while_body st = Inr st' \<Longrightarrow> origins_of (file_data st) k |\<subseteq>| origins_of (file_data st') k"
proof (cases "queue st")
  case Nil
  assume "while_body st = Inr st'"
  with Nil show ?thesis by (simp add: while_body_def)
next
  case (Cons current rest)
  assume "while_body st = Inr st'"
  then show ?thesis
  proof (rule while_body_Inr [OF _ Cons])
    fix r0
    assume "(origin_modules r0 = {||} \<and>
            st' = st \<lparr> queue := rest, queued := queued st |-| {|current|} \<rparr>) \<or>
         (origin_modules r0 \<noteq> {||} \<and>
            propagate_deps (origin_modules r0)
              (sorted_list_of_fset (get_default (adjacency st) current))
              (st \<lparr> queue := rest, queued := queued st |-| {|current|} \<rparr>) = Inr st')"
    then show ?thesis
    proof
      assume "origin_modules r0 = {||} \<and>
            st' = st \<lparr> queue := rest, queued := queued st |-| {|current|} \<rparr>"
      then show ?thesis by simp
    next
      assume "origin_modules r0 \<noteq> {||} \<and>
            propagate_deps (origin_modules r0)
              (sorted_list_of_fset (get_default (adjacency st) current))
              (st \<lparr> queue := rest, queued := queued st |-| {|current|} \<rparr>) = Inr st'"
      then show ?thesis using propagate_deps_mono [where k = k] by fastforce
    qed
  qed
qed

lemma while_body_progress:
  assumes g: "graph_over_files st" and l: "labels_within L (file_data st)"
    and q: "queue st \<noteq> []"
  shows "\<exists>st'. while_body st = Inr st' \<and> graph_over_files st' \<and>
           labels_within L (file_data st') \<and>
           (potential L (file_data st') < potential L (file_data st) \<or>
            potential L (file_data st') = potential L (file_data st) \<and>
            length (queue st') < length (queue st))"
proof -
  from q obtain current rest where qs: "queue st = current # rest" by (cases "queue st") auto
  define st1 where "st1 = st \<lparr> queue := rest, queued := queued st |-| {|current|} \<rparr>"
  from g qs have "current \<in> fst ` set (file_data st)" by (simp add: graph_over_files_def)
  then obtain r0 where rec: "map_of (file_data st) current = Some r0"
    by (metis map_of_eq_None_iff not_Some_eq)
  have g1: "graph_over_files st1"
    using g qs by (auto simp: graph_over_files_def st1_def)
  show ?thesis
  proof (cases "origin_modules r0 = {||}")
    case True
    then have "while_body st = Inr st1"
      using qs rec by (simp add: while_body_def st1_def)
    moreover have "file_data st1 = file_data st" "length (queue st1) < length (queue st)"
      using qs by (simp_all add: st1_def)
    ultimately show ?thesis using g1 l by auto
  next
    case False
    let ?deps = "sorted_list_of_fset (get_default (adjacency st) current)"
    have sub: "set ?deps \<subseteq> fst ` set (file_data st1)"
      using g by (simp add: graph_over_files_def st1_def)
    from propagate_deps_defined [OF this] obtain st' where
      pd: "propagate_deps (origin_modules r0) ?deps st1 = Inr st'" by blast
    have wb: "while_body st = Inr st'"
      using qs rec False pd by (simp add: while_body_def st1_def)
    have co: "origin_modules r0 |\<subseteq>| L" using labels_within_lookup [OF l rec] .
    have l1: "labels_within L (file_data st1)" using l by (simp add: st1_def)
    from propagate_deps_measure [OF pd l1 co]
    have m: "labels_within L (file_data st')"
      "potential L (file_data st') \<le> potential L (file_data st1)"
      "queue st' = queue st1 \<or> potential L (file_data st') < potential L (file_data st1)"
      "set (queue st') \<subseteq> set (queue st1) \<union> set ?deps" by blast+
    have keys: "fst ` set (file_data st') = fst ` set (file_data st)"
      using keys_of_map_fst [OF propagate_deps_keys [OF pd]] by (simp add: st1_def)
    have adj: "adjacency st' = adjacency st"
      using propagate_deps_adjacency [OF pd] by (simp add: st1_def)
    have g': "graph_over_files st'"
      unfolding graph_over_files_def
    proof (intro conjI allI)
      have "set (queue st') \<subseteq> set rest \<union> fset (get_default (adjacency st) current)"
        using m(4) by (simp add: st1_def)
      moreover have "set rest \<subseteq> fst ` set (file_data st)"
        using g qs by (auto simp: graph_over_files_def)
      moreover have "fset (get_default (adjacency st) current) \<subseteq> fst ` set (file_data st)"
        using g by (simp add: graph_over_files_def)
      ultimately show "set (queue st') \<subseteq> fst ` set (file_data st')"
        using keys by blast
      show "fset (get_default (adjacency st') k) \<subseteq> fst ` set (file_data st')" for k
        using g keys adj by (simp add: graph_over_files_def)
    qed
    have "potential L (file_data st') < potential L (file_data st) \<or>
            potential L (file_data st') = potential L (file_data st) \<and>
            length (queue st') < length (queue st)"
      using m(2,3) qs by (auto simp: st1_def)
    with wb g' m(1) show ?thesis by blast
  qed
qed

subsection \<open>The loop\<close>

lemma propagate_rule:
  assumes "propagate st = Some (Inr st')"
    and "I st"
    and "\<And>s s'. I s \<Longrightarrow> queue s \<noteq> [] \<Longrightarrow> while_body s = Inr s' \<Longrightarrow> I s'"
  shows "I st' \<and> queue st' = []"
proof -
  define P where
    "P = (\<lambda>s (res :: error + pstate).
            I s \<longrightarrow> (case res of Inl e \<Rightarrow> True | Inr s' \<Rightarrow> I s' \<and> queue s' = []))"
  have step: "P s res"
    if IH: "\<And>x y. loop x = Some y \<Longrightarrow> P x y"
      and eq: "(if queue s = [] then Some (Inr s)
                else case while_body s of Inl e \<Rightarrow> Some (Inl e) | Inr s1 \<Rightarrow> loop s1) = Some res"
    for loop :: "pstate \<Rightarrow> (error + pstate) option" and s res
    unfolding P_def
  proof
    assume inv: "I s"
    show "case res of Inl e \<Rightarrow> True | Inr s' \<Rightarrow> I s' \<and> queue s' = []"
    proof (cases "queue s = []")
      case True
      with eq inv show ?thesis by auto
    next
      case False
      show ?thesis
      proof (cases "while_body s")
        case (Inl e)
        with False eq show ?thesis by auto
      next
        case (Inr s1)
        with False eq have "loop s1 = Some res" by simp
        moreover have "I s1" using assms(3) [OF inv False Inr] .
        ultimately show ?thesis using IH unfolding P_def by blast
      qed
    qed
  qed
  have "P st (Inr st')"
  proof (rule propagate.raw_induct [where P = P])
    show "propagate st = Some (Inr st')" by (rule assms(1))
  next
    fix loop :: "pstate \<Rightarrow> (error + pstate) option" and s res
    assume "\<And>x y. loop x = Some y \<Longrightarrow> P x y"
      and "(if queue s = [] then Some (Inr s)
            else case while_body s of Inl e \<Rightarrow> Some (Inl e) | Inr s1 \<Rightarrow> loop s1) = Some res"
    then show "P s res" by (rule step)
  qed
  with assms(2) show ?thesis by (simp add: P_def)
qed

lemma propagate_terminates_within:
  assumes "graph_over_files st" and "labels_within L (file_data st)"
  shows "\<exists>st'. propagate st = Some (Inr st') \<and> queue st' = []"
  using assms
proof (induction "(potential L (file_data st), length (queue st))" arbitrary: st
        rule: wf_induct_rule [OF wf_lex_prod [OF wf_less_than wf_less_than]])
  case 1
  show ?case
  proof (cases "queue st = []")
    case True
    then show ?thesis by (subst propagate.simps) simp
  next
    case False
    from while_body_progress [OF 1(2,3) False] obtain s1 where
      wb: "while_body st = Inr s1" and g: "graph_over_files s1"
      and l: "labels_within L (file_data s1)"
      and m: "potential L (file_data s1) < potential L (file_data st) \<or>
            potential L (file_data s1) = potential L (file_data st) \<and>
            length (queue s1) < length (queue st)" by blast
    have "((potential L (file_data s1), length (queue s1)),
           (potential L (file_data st), length (queue st))) \<in> less_than <*lex*> less_than"
      using m by auto
    from 1(1) [OF this g l] obtain st' where
      "propagate s1 = Some (Inr st')" "queue st' = []" by blast
    moreover have "propagate st = propagate s1"
      using False wb by (subst propagate.simps) simp
    ultimately show ?thesis by auto
  qed
qed

lemma labels_within_all_labels: "labels_within (all_labels table) table"
proof -
  have "origin_modules r |\<subseteq>| all_labels table" if "(k, r) \<in> set table" for k r
  proof -
    let ?A = "fset_of_list (map (\<lambda>(k, r). origin_modules r) table)"
    from that have "origin_modules r |\<in>| ?A"
      by (force simp: fset_of_list_elem)
    moreover have "ffUnion ?A |\<subseteq>| ffUnion ?A" by simp
    ultimately show ?thesis
      unfolding all_labels_def ffUnion_fsubset_iff by blast
  qed
  then show ?thesis by (auto simp: labels_within_def)
qed

section \<open>The instance, evaluated\<close>

lemma example_graph_over_files: "graph_over_files example_state"
  by (auto simp: graph_over_files_def example_state_def example_table_def get_default_def)

lemma sorted_list_of_fset_single [simp]: "sorted_list_of_fset {|x|} = [x]"
  by (simp add: sorted_list_of_fset.rep_eq)

lemma example_while_body: "while_body example_state = Inr example_step"
  by (simp add: while_body_def example_state_def example_step_def example_table_def
      new_FileData_def get_default_def visit_dep_def Let_def fcard_finsert_if)

lemma example_while_body2: "while_body example_step = Inr example_final"
  by (simp add: while_body_def example_final_def example_step_def
      new_FileData_def get_default_def visit_dep_def Let_def fcard_finsert_if)

lemma example_propagate: "propagate example_state = Some (Inr example_final)"
proof -
  have q1: "queue example_state \<noteq> []" by (simp add: example_state_def)
  have q2: "queue example_step \<noteq> []" by (simp add: example_step_def)
  have q3: "queue example_final = []" by (simp add: example_final_def)
  have "propagate example_final = Some (Inr example_final)"
    using q3 by (subst propagate.simps) simp
  then have "propagate example_step = Some (Inr example_final)"
    using q2 example_while_body2 by (subst propagate.simps) simp
  then show ?thesis
    using q1 example_while_body by (subst propagate.simps) simp
qed

section \<open>Propagation: termination, monotonicity, frame\<close>

lemma propagate_mono:
  assumes "propagate st = Some (Inr st')"
  shows "origins_of (file_data st) k |\<subseteq>| origins_of (file_data st') k"
proof -
  have "origins_of (file_data st) k |\<subseteq>| origins_of (file_data st') k \<and> queue st' = []"
  proof (rule propagate_rule [OF assms])
    show "origins_of (file_data st) k |\<subseteq>| origins_of (file_data st) k" by simp
  next
    fix s s'
    assume "origins_of (file_data st) k |\<subseteq>| origins_of (file_data s) k"
      and "while_body s = Inr s'"
    then show "origins_of (file_data st) k |\<subseteq>| origins_of (file_data s') k"
      using while_body_mono [of s s' k] by auto
  qed
  then show ?thesis by simp
qed

lemma propagate_frame:
  assumes "propagate st = Some (Inr st')"
  shows "adjacency st' = adjacency st"
    and "without_origins (file_data st') = without_origins (file_data st)"
proof -
  have "(adjacency st' = adjacency st \<and>
         without_origins (file_data st') = without_origins (file_data st)) \<and> queue st' = []"
  proof (rule propagate_rule [OF assms])
    show "adjacency st = adjacency st \<and>
          without_origins (file_data st) = without_origins (file_data st)" by simp
  next
    fix s s'
    assume "adjacency s = adjacency st \<and>
            without_origins (file_data s) = without_origins (file_data st)"
      and "while_body s = Inr s'"
    then show "adjacency s' = adjacency st \<and>
               without_origins (file_data s') = without_origins (file_data st)"
      using while_body_adjacency [of s s'] while_body_frame [of s s'] by simp
  qed
  then show "adjacency st' = adjacency st"
    and "without_origins (file_data st') = without_origins (file_data st)" by simp_all
qed

lemma without_origins_keys: "map fst (without_origins table) = map fst table"
  by (induction table) (auto simp: without_origins_def)

lemma blank_origins_eq:
  "r \<lparr> origin_modules := {||} \<rparr> = r' \<lparr> origin_modules := {||} \<rparr> \<Longrightarrow>
   r' = r \<lparr> origin_modules := origin_modules r' \<rparr>"
  by (cases r, cases r') simp

lemma without_origins_lookup:
  "without_origins a = without_origins b \<Longrightarrow> map_of a k = Some r \<Longrightarrow>
   \<exists>r'. map_of b k = Some r' \<and> r' = r \<lparr> origin_modules := origin_modules r' \<rparr>"
proof (induction a arbitrary: b)
  case Nil
  then show ?case by simp
next
  case (Cons x a)
  from Cons.prems(1) obtain y b' where b: "b = y # b'"
    by (cases b) (auto simp: without_origins_def)
  obtain k1 r1 where x: "x = (k1, r1)" by (cases x)
  obtain k2 r2 where y: "y = (k2, r2)" by (cases y)
  from Cons.prems(1) b x y have hd: "k1 = k2"
    "r1 \<lparr> origin_modules := {||} \<rparr> = r2 \<lparr> origin_modules := {||} \<rparr>"
    and tl: "without_origins a = without_origins b'"
    by (simp_all add: without_origins_def)
  show ?case
  proof (cases "k = k1")
    case True
    with Cons.prems(2) x have "r = r1" by simp
    with True hd b y blank_origins_eq [OF hd(2)] show ?thesis by simp
  next
    case False
    with Cons.prems(2) x have "map_of a k = Some r" by simp
    from Cons.IH [OF tl this] False hd b y show ?thesis by simp
  qed
qed

text \<open>
  C2. Termination of the propagation loop: for every table of scanned files, every
  dependency graph over them (queue entries and edge targets are scanned files) and
  every seeding of the origin-label sets, the worklist loop returns, without an
  error, in a state whose queue is empty.
\<close>

theorem propagation_terminates:
  "graph_over_files st \<Longrightarrow> \<exists>st'. propagate st = Some (Inr st') \<and> queue st' = []"
  by (rule propagate_terminates_within [OF _ labels_within_all_labels])

theorem propagation_terminates_witness:
  "graph_over_files example_state \<and>
   (\<exists>st'. propagate example_state = Some (Inr st') \<and> queue st' = [])"
  using propagation_terminates [OF example_graph_over_files] example_graph_over_files
  by simp

text \<open>
  C3. Monotonicity of origin labels: one iteration of the propagation loop leaves the
  origin-label set of every file a superset of its previous value, and the set at
  the fixpoint is a superset of the set assigned at seeding time; no label is removed.
\<close>

theorem origin_labels_monotone:
  "(while_body st = Inr st1 \<longrightarrow>
      (\<forall>k. origins_of (file_data st) k |\<subseteq>| origins_of (file_data st1) k)) \<and>
   (propagate st = Some (Inr st') \<longrightarrow>
      (\<forall>k. origins_of (file_data st) k |\<subseteq>| origins_of (file_data st') k))"
  using while_body_mono [of st st1] propagate_mono [of st st'] by blast

theorem origin_labels_monotone_witness:
  "while_body example_state = Inr example_step \<and>
   propagate example_state = Some (Inr example_final) \<and>
   (\<forall>k. origins_of (file_data example_state) k |\<subseteq>| origins_of (file_data example_step) k) \<and>
   (\<forall>k. origins_of (file_data example_state) k |\<subseteq>| origins_of (file_data example_final) k)"
  using origin_labels_monotone [of example_state example_step example_final]
    example_while_body example_propagate
  by simp

text \<open>
  C10. Frame property of propagation: the loop changes nothing but origin-label sets
  (and its own queue). The adjacency is the same before and after, the table has the
  same paths in the same order, and every file keeps its defined modules, defined
  routines, uses, calls, unresolved targets and resolved dependencies; indeed the
  whole record but for \<open>origin_modules\<close>.
\<close>

theorem propagation_frame:
  assumes "propagate st = Some (Inr st')"
  shows "adjacency st' = adjacency st \<and>
         map fst (file_data st') = map fst (file_data st) \<and>
         (\<forall>k r. map_of (file_data st) k = Some r \<longrightarrow>
            (\<exists>r'. map_of (file_data st') k = Some r' \<and>
                  r' = r \<lparr> origin_modules := origin_modules r' \<rparr> \<and>
                  defined_modules r' = defined_modules r \<and>
                  defined_routines r' = defined_routines r \<and>
                  uses r' = uses r \<and> calls r' = calls r \<and>
                  unresolved_targets r' = unresolved_targets r \<and>
                  resolved_deps r' = resolved_deps r))"
proof (intro conjI allI impI)
  show "adjacency st' = adjacency st" using propagate_frame(1) [OF assms] .
  have w: "without_origins (file_data st) = without_origins (file_data st')"
    using propagate_frame(2) [OF assms] by simp
  show "map fst (file_data st') = map fst (file_data st)"
    using without_origins_keys [of "file_data st"] without_origins_keys [of "file_data st'"] w
    by simp
  fix k r
  assume "map_of (file_data st) k = Some r"
  from without_origins_lookup [OF w this] obtain r' where
    l: "map_of (file_data st') k = Some r'"
    and e: "r' = r \<lparr> origin_modules := origin_modules r' \<rparr>" by blast
  have "defined_modules r' = defined_modules r" "defined_routines r' = defined_routines r"
    "uses r' = uses r" "calls r' = calls r"
    "unresolved_targets r' = unresolved_targets r" "resolved_deps r' = resolved_deps r"
    by (subst e, simp)+
  with l e show "\<exists>r'. map_of (file_data st') k = Some r' \<and>
                  r' = r \<lparr> origin_modules := origin_modules r' \<rparr> \<and>
                  defined_modules r' = defined_modules r \<and>
                  defined_routines r' = defined_routines r \<and>
                  uses r' = uses r \<and> calls r' = calls r \<and>
                  unresolved_targets r' = unresolved_targets r \<and>
                  resolved_deps r' = resolved_deps r"
    by blast
qed

theorem propagation_frame_witness:
  "propagate example_state = Some (Inr example_final) \<and>
   adjacency example_final = adjacency example_state \<and>
   map fst (file_data example_final) = map fst (file_data example_state)"
  using propagation_frame [OF example_propagate] example_propagate by simp

end
